theory Spec2Isabelle
  imports Main "HOL-Library.AList"
begin

section \<open>Python values and objects of \<open>rdflib.plugins.sparql.parserutils\<close>\<close>

text \<open>
  Modelled from the spec: the error classes of \<open>rdflib.plugins.sparql.sparql\<close>
  (imported at the end of \<open>parserutils.py\<close>, not part of the sources).
  \<open>NotBoundError\<close> is the unbound-variable failure, \<open>EvalError\<close> stands for every other
  evaluation-domain error; both are instances of \<open>SPARQLError\<close>.
\<close>

datatype sparql_error = NotBoundError | EvalError string

text \<open>
  Exceptions that can leave a call. \<open>SPARQLError e\<close> is a raised evaluation-domain error;
  the other constructors are the failures that are not evaluation-domain errors
  (\<open>ParseException\<close> is the one \<open>pyparsing\<close> raises where an expression does not match).
\<close>

datatype exn =
    SPARQLError sparql_error
  | Exception string
  | TypeError
  | AttributeError
  | KeyError
  | RecursionError
  | IndexError
  | ParseException

type_synonym addr = nat

text \<open>
  The values the module handles. \<open>CompValue\<close> and \<open>Expr\<close> objects are mutable (their
  \<open>ctx\<close> attribute is assigned during evaluation), so a value refers to one by its
  address \<open>Ref a\<close> in the store. \<open>PList\<close> is the class \<open>plist\<close>, a subclass of \<open>list\<close>.
  \<open>Error e\<close> is a \<open>SPARQLError\<close> instance held as an ordinary value. \<open>ParamValue\<close> is
  the object a \<open>Param\<close> produces, \<open>NONE_VALUE\<close> the sentinel object of the TSV parser,
  \<open>RDFLiteral lex lang dt\<close> the \<open>rdflib.Literal\<close> built from these three arguments.
\<close>

datatype val =
    PyNone
  | Str string
  | URIRef string
  | RDFLiteral val val val
  | Variable string
  | BNode string
  | Error sparql_error
  | PyList "val list"
  | PList "val list"
  | ParseResults "val list"
  | ParamValue string val bool
  | Ref addr
  | NONE_VALUE

text \<open>
  A binding context is an external collaborator; the module only calls its \<open>get\<close>
  method, which returns the bound value or \<open>None\<close>.
\<close>

type_synonym ctx = "val \<Rightarrow> val"

text \<open>
  The instance attribute \<open>ctx\<close> of a node. \<open>CompValue.__init__\<close> and \<open>Expr.__init__\<close>
  never assign it: it is \<open>Unset\<close> until \<open>Expr.eval\<close> assigns it for the first time.
\<close>

datatype ctx_attr = Unset | Attached "ctx option"

datatype node_class = CompValue | Expr

type_synonym fnid = nat

record node =
  node_class :: node_class
  node_name :: string
  node_items :: "(string \<times> val) list"
  node_ctx :: ctx_attr
  node_evalfn :: "fnid option"

record store =
  objs :: "addr \<Rightarrow> node"
  next_addr :: addr

text \<open>
  Evaluation functions are arbitrary Python callables supplied by the grammar. They are
  identified by an \<open>fnid\<close>; the table gives what calling one does: from the node it is
  bound to, the context and the store it returns or raises, in a store it may have
  changed in any way.
\<close>

type_synonym evalfns = "fnid \<Rightarrow> addr \<Rightarrow> ctx \<Rightarrow> store \<Rightarrow> (exn + val) \<times> store"

definition set_ctx :: "addr \<Rightarrow> ctx option \<Rightarrow> store \<Rightarrow> store" where
  "set_ctx self c s = s\<lparr>objs := (objs s)(self := (objs s self)\<lparr>node_ctx := Attached c\<rparr>)\<rparr>"

section \<open>\<open>Expr.eval\<close>\<close>

text \<open>
  \<^verbatim>\<open>
  def eval(self, ctx={}):
      try:
          self.ctx = ctx
          return self._evalfn(ctx)
      except SPARQLError as e:
          return e
      finally:
          self.ctx = None
  \<close>
  \<open>self._evalfn\<close> is \<open>None\<close> when no evaluation function was given; calling it raises
  \<open>TypeError\<close>.
\<close>

definition Expr_eval :: "evalfns \<Rightarrow> addr \<Rightarrow> ctx \<Rightarrow> store \<Rightarrow> (exn + val) \<times> store" where
  "Expr_eval fns self c s =
     (let s1 = set_ctx self (Some c) s;
          (r, s2) = (case node_evalfn (objs s1 self) of
                       None \<Rightarrow> (Inl TypeError, s1)
                     | Some f \<Rightarrow> fns f self c s1);
          s3 = set_ctx self None s2
      in (case r of
            Inl (SPARQLError e) \<Rightarrow> (Inr (Error e), s3)
          | _ \<Rightarrow> (r, s3)))"

section \<open>Value resolution: \<open>value\<close>\<close>

text \<open>
  \<^verbatim>\<open>
  def value(ctx, val, variables=False, errors=False):
      if isinstance(val, Expr):
          return val.eval(ctx)  # recurse?
      elif isinstance(val, CompValue):
          raise Exception("What do I do with this CompValue? %s" % val)
      elif isinstance(val, list):
          return [value(ctx, x, variables, errors) for x in val]
      elif isinstance(val, (BNode, Variable)):
          r = ctx.get(val)
          if isinstance(r, SPARQLError) and not errors:
              raise r
          if r is not None:
              return r
          # not bound
          if variables:
              return val
          else:
              raise NotBoundError
      elif isinstance(val, ParseResults) and len(val) == 1:
          return value(ctx, val[0], variables, errors)
      else:
          return val
  \<close>
  The text formatted into the message of the \<open>Exception\<close> is left out.
\<close>

fun is_Error :: "val \<Rightarrow> bool" where
  "is_Error (Error e) = True"
| "is_Error v = False"

fun the_Error :: "val \<Rightarrow> sparql_error" where
  "the_Error (Error e) = e"
| "the_Error v = NotBoundError"

definition lookup :: "ctx \<Rightarrow> val \<Rightarrow> bool \<Rightarrow> bool \<Rightarrow> exn + val" where
  "lookup c v variables errors =
     (let r = c v in
      if is_Error r \<and> \<not> errors then Inl (SPARQLError (the_Error r))
      else if r \<noteq> PyNone then Inr r
      else if variables then Inr v
      else Inl (SPARQLError NotBoundError))"

fun value_py :: "evalfns \<Rightarrow> ctx \<Rightarrow> val \<Rightarrow> bool \<Rightarrow> bool \<Rightarrow> store \<Rightarrow> (exn + val) \<times> store"
and value_list :: "evalfns \<Rightarrow> ctx \<Rightarrow> val list \<Rightarrow> bool \<Rightarrow> bool \<Rightarrow> store \<Rightarrow> (exn + val list) \<times> store"
where
  "value_py fns c (Ref a) variables errors s =
     (if node_class (objs s a) = Expr then Expr_eval fns a c s
      else (Inl (Exception ''What do I do with this CompValue?''), s))"
| "value_py fns c (PyList xs) variables errors s =
     (case value_list fns c xs variables errors s of
        (Inl e, s') \<Rightarrow> (Inl e, s')
      | (Inr ys, s') \<Rightarrow> (Inr (PyList ys), s'))"
| "value_py fns c (PList xs) variables errors s =
     (case value_list fns c xs variables errors s of
        (Inl e, s') \<Rightarrow> (Inl e, s')
      | (Inr ys, s') \<Rightarrow> (Inr (PyList ys), s'))"
| "value_py fns c (Variable x) variables errors s = (lookup c (Variable x) variables errors, s)"
| "value_py fns c (BNode x) variables errors s = (lookup c (BNode x) variables errors, s)"
| "value_py fns c (ParseResults [x]) variables errors s = value_py fns c x variables errors s"
| "value_py fns c v variables errors s = (Inr v, s)"
| "value_list fns c [] variables errors s = (Inr [], s)"
| "value_list fns c (x # xs) variables errors s =
     (case value_py fns c x variables errors s of
        (Inl e, s') \<Rightarrow> (Inl e, s')
      | (Inr y, s') \<Rightarrow>
          (case value_list fns c xs variables errors s' of
             (Inl e, s'') \<Rightarrow> (Inl e, s'')
           | (Inr ys, s'') \<Rightarrow> (Inr (y # ys), s'')))"

section \<open>\<open>CompValue\<close>: reading attributes\<close>

text \<open>
  Reading \<open>self.ctx\<close>. Once \<open>Expr.eval\<close> has assigned the attribute, the read gives what
  was assigned. Before that the instance has no such attribute and Python falls back to
  \<^verbatim>\<open>
  def __getattr__(self, a):
      # Hack hack: OrderedDict relies on this
      if a in ("_OrderedDict__root", "_OrderedDict__end"):
          raise AttributeError()
      try:
          return self[a]
      except KeyError:
          # raise AttributeError('no such attribute '+a)
          return None
  \<close>
  with \<open>a = "ctx"\<close>: when the node stores no key \<open>"ctx"\<close> the \<open>KeyError\<close> is caught and the
  read gives \<open>None\<close>. When it does store one, \<open>self["ctx"]\<close> enters \<open>__getitem__\<close>, which
  calls \<open>_value\<close>, which reads \<open>self.ctx\<close> again: the recursion has no base case and
  Python raises \<open>RecursionError\<close>.
\<close>

definition has_key :: "(string \<times> val) list \<Rightarrow> string \<Rightarrow> bool" where
  "has_key kvs k = (map_of kvs k \<noteq> None)"

definition read_ctx :: "node \<Rightarrow> exn + ctx option" where
  "read_ctx n =
     (case node_ctx n of
        Attached c \<Rightarrow> Inr c
      | Unset \<Rightarrow> if has_key (node_items n) ''ctx'' then Inl RecursionError else Inr None)"

text \<open>
  \<^verbatim>\<open>
  def _value(self, val, variables=False, errors=False):
      if self.ctx is not None:
          return value(self.ctx, val, variables)
      else:
          return val
  \<close>
  The call of \<open>value\<close> passes three arguments: its fourth parameter \<open>errors\<close> takes its
  default \<open>False\<close>, whatever \<open>errors\<close> \<open>_value\<close> was given.
\<close>

definition CompValue_value ::
  "evalfns \<Rightarrow> addr \<Rightarrow> val \<Rightarrow> bool \<Rightarrow> bool \<Rightarrow> store \<Rightarrow> (exn + val) \<times> store" where
  "CompValue_value fns self v variables errors s =
     (case read_ctx (objs s self) of
        Inl e \<Rightarrow> (Inl e, s)
      | Inr None \<Rightarrow> (Inr v, s)
      | Inr (Some c) \<Rightarrow> value_py fns c v variables False s)"

text \<open>
  \<^verbatim>\<open>
  def __getitem__(self, a):
      return self._value(OrderedDict.__getitem__(self, a))
  \<close>
\<close>

definition CompValue_getitem :: "evalfns \<Rightarrow> addr \<Rightarrow> string \<Rightarrow> store \<Rightarrow> (exn + val) \<times> store" where
  "CompValue_getitem fns self a s =
     (case map_of (node_items (objs s self)) a of
        None \<Rightarrow> (Inl KeyError, s)
      | Some raw \<Rightarrow> CompValue_value fns self raw False False s)"

text \<open>
  \<^verbatim>\<open>
  def get(self, a, variables=False, errors=False):
      return self._value(OrderedDict.get(self, a, a), variables, errors)
  \<close>
  The name \<open>a\<close> is a Python string; as a value it is \<open>Str a\<close>.
\<close>

definition CompValue_get ::
  "evalfns \<Rightarrow> addr \<Rightarrow> string \<Rightarrow> bool \<Rightarrow> bool \<Rightarrow> store \<Rightarrow> (exn + val) \<times> store" where
  "CompValue_get fns self a variables errors s =
     CompValue_value fns self
       (case map_of (node_items (objs s self)) a of None \<Rightarrow> Str a | Some raw \<Rightarrow> raw)
       variables errors s"

text \<open>
  \<open>__getattr__\<close> (quoted above) is what attribute-style access runs for a name that is
  neither an instance attribute (\<open>name\<close>, \<open>_evalfn\<close>, an assigned \<open>ctx\<close>) nor a method.
\<close>

definition CompValue_getattr :: "evalfns \<Rightarrow> addr \<Rightarrow> string \<Rightarrow> store \<Rightarrow> (exn + val) \<times> store" where
  "CompValue_getattr fns self a s =
     (if a = ''_OrderedDict__root'' \<or> a = ''_OrderedDict__end'' then (Inl AttributeError, s)
      else (case CompValue_getitem fns self a s of
              (Inl KeyError, s') \<Rightarrow> (Inr PyNone, s')
            | r \<Rightarrow> r))"

section \<open>Object creation\<close>

definition alloc :: "node \<Rightarrow> store \<Rightarrow> addr \<times> store" where
  "alloc n s = (next_addr s, s\<lparr>objs := (objs s)(next_addr s := n), next_addr := Suc (next_addr s)\<rparr>)"

definition setitem :: "addr \<Rightarrow> string \<Rightarrow> val \<Rightarrow> store \<Rightarrow> store" where
  "setitem self k v s =
     s\<lparr>objs := (objs s)(self := (objs s self)\<lparr>node_items := AList.update k v (node_items (objs s self))\<rparr>)\<rparr>"

text \<open>
  \<^verbatim>\<open>
  def __init__(self, name, **values):
      OrderedDict.__init__(self)
      self.name = name
      self.update(values)
  \<close>
\<close>

definition CompValue_init :: "string \<Rightarrow> (string \<times> val) list \<Rightarrow> store \<Rightarrow> addr \<times> store" where
  "CompValue_init name values s =
     alloc \<lparr>node_class = CompValue, node_name = name,
            node_items = fold (\<lambda>(k, v). AList.update k v) values [],
            node_ctx = Unset, node_evalfn = None\<rparr> s"

text \<open>
  \<^verbatim>\<open>
  def __init__(self, name, evalfn=None, **values):
      super(Expr, self).__init__(name, **values)
      self._evalfn = None
      if evalfn:
          self._evalfn = MethodType(evalfn, self)
  \<close>
\<close>

definition Expr_init :: "string \<Rightarrow> fnid option \<Rightarrow> (string \<times> val) list \<Rightarrow> store \<Rightarrow> addr \<times> store" where
  "Expr_init name evalfn values s =
     alloc \<lparr>node_class = Expr, node_name = name,
            node_items = fold (\<lambda>(k, v). AList.update k v) values [],
            node_ctx = Unset, node_evalfn = evalfn\<rparr> s"

definition set_evalfn :: "addr \<Rightarrow> fnid option \<Rightarrow> store \<Rightarrow> store" where
  "set_evalfn self f s = s\<lparr>objs := (objs s)(self := (objs s self)\<lparr>node_evalfn := f\<rparr>)\<rparr>"

section \<open>\<open>ParamValue\<close> and \<open>Param\<close>\<close>

text \<open>
  \<^verbatim>\<open>
  def __init__(self, name, tokenList, isList):
      self.isList = isList
      self.name = name
      if isinstance(tokenList, (list, ParseResults)) and len(tokenList) == 1:
          tokenList = tokenList[0]
      self.tokenList = tokenList
  \<close>
\<close>

fun collapse :: "val \<Rightarrow> val" where
  "collapse (PyList [x]) = x"
| "collapse (PList [x]) = x"
| "collapse (ParseResults [x]) = x"
| "collapse v = v"

definition ParamValue_init :: "string \<Rightarrow> val \<Rightarrow> bool \<Rightarrow> val" where
  "ParamValue_init name tokenList isList = ParamValue name (collapse tokenList) isList"

record param =
  param_name :: string
  param_isList :: bool

text \<open>
  \<^verbatim>\<open>
  def postParse2(self, tokenList):
      return ParamValue(self.name, tokenList, self.isList)
  \<close>
\<close>

definition Param_postParse2 :: "param \<Rightarrow> val \<Rightarrow> val" where
  "Param_postParse2 p tokenList = ParamValue_init (param_name p) tokenList (param_isList p)"

section \<open>\<open>Comp\<close>: building a node\<close>

text \<open>
  \<open>pyparsing\<close> is an external library. The expression of a production is represented
  by what matching it does: \<open>m text p = Some (b, e)\<close> when the expression, tried at
  position \<open>p\<close> of \<open>text\<close>, matches \<open>text[b:e]\<close> (\<open>b\<close> is past the whitespace skipped
  at \<open>p\<close>).

  \<open>originalTextFor(self.expr).searchString(instring)[0][0]\<close>: the expression made by
  \<open>originalTextFor\<close> is a new one, which does not keep tabs, so \<open>searchString\<close> first
  replaces \<open>instring\<close> by \<open>instring.expandtabs()\<close>. It then scans that text from
  position \<open>0\<close> and gives the piece of it the first match spans; indexing the empty
  result raises \<open>IndexError\<close>.

  \<open>str.expandtabs()\<close> replaces a tab by the spaces that lead to the next column that is
  a multiple of eight; the column starts again after a line feed or a carriage return.
\<close>

type_synonym matcher = "string \<Rightarrow> nat \<Rightarrow> (nat \<times> nat) option"

definition tab :: char where
  "tab = CHR 0x09"

definition newline :: char where
  "newline = CHR 0x0A"

fun expandtabs_from :: "nat \<Rightarrow> string \<Rightarrow> string" where
  "expandtabs_from col [] = []"
| "expandtabs_from col (c # cs) =
     (if c = tab
      then replicate (8 - col mod 8) (CHR '' '') @ expandtabs_from (col + (8 - col mod 8)) cs
      else if c = newline \<or> c = CHR 0x0D then c # expandtabs_from 0 cs
      else c # expandtabs_from (Suc col) cs)"

definition expandtabs :: "string \<Rightarrow> string" where
  "expandtabs instring = expandtabs_from 0 instring"

definition searchString_first :: "matcher \<Rightarrow> string \<Rightarrow> exn + string" where
  "searchString_first m instring =
     (let expanded = expandtabs instring
      in case List.find (\<lambda>p. m expanded p \<noteq> None) [0..<Suc (length expanded)] of
           None \<Rightarrow> Inl IndexError
         | Some p \<Rightarrow>
             (case m expanded p of
                None \<Rightarrow> Inl IndexError
              | Some (b, e) \<Rightarrow> Inr (take (e - b) (drop b expanded))))"

record comp =
  comp_name :: string
  comp_expr :: matcher
  comp_evalfn :: "fnid option"

text \<open>
  \<^verbatim>\<open>
  def __init__(self, name, expr):
      self.expr = expr
      TokenConverter.__init__(self, expr)
      self.setName(name)
      self.evalfn = None

  def setEvalFn(self, evalfn):
      self.evalfn = evalfn
      return self
  \<close>
\<close>

definition Comp_init :: "string \<Rightarrow> matcher \<Rightarrow> comp" where
  "Comp_init name expr = \<lparr>comp_name = name, comp_expr = expr, comp_evalfn = None\<rparr>"

definition setEvalFn :: "comp \<Rightarrow> fnid \<Rightarrow> comp" where
  "setEvalFn c f = c\<lparr>comp_evalfn := Some f\<rparr>"

text \<open>
  \<open>obj.append(v)\<close> for the object \<open>obj\<close> read from the node. Lists, \<open>plist\<close>s and
  \<open>ParseResults\<close> have the method. A \<open>CompValue\<close> has none: \<open>__getattr__("append")\<close> gives
  \<open>None\<close> or a stored value, and calling that raises \<open>TypeError\<close>. Every other value
  raises \<open>AttributeError\<close>.
\<close>

definition py_append :: "evalfns \<Rightarrow> val \<Rightarrow> val \<Rightarrow> store \<Rightarrow> (exn + val) \<times> store" where
  "py_append fns obj v s =
     (case obj of
        PList xs \<Rightarrow> (Inr (PList (xs @ [v])), s)
      | PyList xs \<Rightarrow> (Inr (PyList (xs @ [v])), s)
      | ParseResults xs \<Rightarrow> (Inr (ParseResults (xs @ [v])), s)
      | Ref a \<Rightarrow>
          (case CompValue_getattr fns a ''append'' s of
             (Inl e, s') \<Rightarrow> (Inl e, s')
           | (Inr f, s') \<Rightarrow> (Inl TypeError, s'))
      | _ \<Rightarrow> (Inl AttributeError, s))"

text \<open>
  The body of the loop of \<open>postParse\<close>:
  \<^verbatim>\<open>
  if isinstance(t, ParamValue):
      if t.isList:
          if t.name not in res:
              res[t.name] = plist()
          res[t.name].append(t.tokenList)
      else:
          res[t.name] = t.tokenList
  \<close>
  \<open>res[t.name]\<close> on the right of an assignment is \<open>OrderedDict.__setitem__\<close>; read, it is
  \<open>CompValue.__getitem__\<close>. \<open>res\<close> was created by this call and has not been
  evaluated, so a successful read returns the stored object itself and \<open>append\<close>
  changes that object in place: the changed list is written back under the name.
\<close>

definition postParse_step :: "evalfns \<Rightarrow> addr \<Rightarrow> val \<Rightarrow> store \<Rightarrow> (exn + unit) \<times> store" where
  "postParse_step fns res t s =
     (case t of
        ParamValue name tokenList isList \<Rightarrow>
          if isList then
            (let s1 = (if \<not> has_key (node_items (objs s res)) name
                       then setitem res name (PList []) s else s)
             in case CompValue_getitem fns res name s1 of
                  (Inl e, s2) \<Rightarrow> (Inl e, s2)
                | (Inr obj, s2) \<Rightarrow>
                    (case py_append fns obj tokenList s2 of
                       (Inl e, s3) \<Rightarrow> (Inl e, s3)
                     | (Inr obj', s3) \<Rightarrow> (Inr (), setitem res name obj' s3)))
          else (Inr (), setitem res name tokenList s)
      | _ \<Rightarrow> (Inr (), s))"

fun postParse_loop :: "evalfns \<Rightarrow> addr \<Rightarrow> val list \<Rightarrow> store \<Rightarrow> (exn + unit) \<times> store" where
  "postParse_loop fns res [] s = (Inr (), s)"
| "postParse_loop fns res (t # ts) s =
     (case postParse_step fns res t s of
        (Inl e, s') \<Rightarrow> (Inl e, s')
      | (Inr u, s') \<Rightarrow> postParse_loop fns res ts s')"

text \<open>
  \<^verbatim>\<open>
  def postParse(self, instring, loc, tokenList):
      if self.evalfn:
          res = Expr(self.name)
          res._evalfn = MethodType(self.evalfn, res)
      else:
          res = CompValue(self.name)
          if self.name == "ServiceGraphPattern":
              # Then this must be a service graph pattern and have
              # already matched.
              # lets assume there is one, for now, then test for two later.
              sgp = originalTextFor(self.expr)
              service_string = sgp.searchString(instring)[0][0]
              res["service_string"] = service_string
      for t in tokenList:
          ...
      return res
  \<close>
\<close>

definition Comp_postParse ::
  "evalfns \<Rightarrow> comp \<Rightarrow> string \<Rightarrow> nat \<Rightarrow> val list \<Rightarrow> store \<Rightarrow> (exn + val) \<times> store" where
  "Comp_postParse fns c instring loc tokenList s =
     (let (r0, s0) =
            (if comp_evalfn c \<noteq> None then
               (let (res, s1) = Expr_init (comp_name c) None [] s
                in (Inr res, set_evalfn res (comp_evalfn c) s1))
             else
               (let (res, s1) = CompValue_init (comp_name c) [] s
                in if comp_name c = ''ServiceGraphPattern'' then
                     (case searchString_first (comp_expr c) instring of
                        Inl e \<Rightarrow> (Inl e, s1)
                      | Inr service_string \<Rightarrow>
                          (Inr res, setitem res ''service_string'' (Str service_string) s1))
                   else (Inr res, s1)))
      in case r0 of
           Inl e \<Rightarrow> (Inl e, s0)
         | Inr res \<Rightarrow>
             (case postParse_loop fns res tokenList s0 of
                (Inl e, s') \<Rightarrow> (Inl e, s')
              | (Inr u, s') \<Rightarrow> (Inr (Ref res), s')))"

section \<open>The tabular result parser: \<open>results/tsvresults.py\<close>\<close>



definition blank :: "char \<Rightarrow> bool" where
  "blank c = (c = CHR '' '' \<or> c = newline)"

definition skipped :: "(char \<Rightarrow> bool) \<Rightarrow> string \<Rightarrow> nat" where
  "skipped W inp = length (takeWhile W inp)"


























section \<open>Vocabulary of the statements\<close>

text \<open>The kinds of value that \<open>value\<close> tells apart.\<close>

fun is_node :: "val \<Rightarrow> bool" where
  "is_node (Ref a) = True"
| "is_node v = False"

fun is_list :: "val \<Rightarrow> bool" where
  "is_list (PyList xs) = True"
| "is_list (PList xs) = True"
| "is_list v = False"

fun is_placeholder :: "val \<Rightarrow> bool" where
  "is_placeholder (Variable x) = True"
| "is_placeholder (BNode x) = True"
| "is_placeholder v = False"

fun is_single_match :: "val \<Rightarrow> bool" where
  "is_single_match (ParseResults [x]) = True"
| "is_single_match v = False"

text \<open>
  The labelled tokens of a token list: the names of its \<open>ParamValue\<close>s, and for a name
  the value of its last occurrence and the values of all its occurrences in order.
\<close>

fun labelled_names :: "val list \<Rightarrow> string set" where
  "labelled_names [] = {}"
| "labelled_names (ParamValue n v l # ts) = insert n (labelled_names ts)"
| "labelled_names (t # ts) = labelled_names ts"

fun last_labelled :: "string \<Rightarrow> val list \<Rightarrow> val option" where
  "last_labelled n [] = None"
| "last_labelled n (ParamValue m v l # ts) =
     (case last_labelled n ts of
        Some w \<Rightarrow> Some w
      | None \<Rightarrow> if m = n then Some v else None)"
| "last_labelled n (t # ts) = last_labelled n ts"

fun all_scalar :: "val list \<Rightarrow> bool" where
  "all_scalar [] = True"
| "all_scalar (ParamValue n v l # ts) = (\<not> l \<and> all_scalar ts)"
| "all_scalar (t # ts) = all_scalar ts"

fun values_of :: "string \<Rightarrow> val list \<Rightarrow> val list" where
  "values_of n [] = []"
| "values_of n (ParamValue m v l # ts) = (if m = n then v # values_of n ts else values_of n ts)"
| "values_of n (t # ts) = values_of n ts"

fun only_list :: "string \<Rightarrow> val list \<Rightarrow> bool" where
  "only_list n [] = True"
| "only_list n (ParamValue m v l # ts) = ((m = n \<longrightarrow> l) \<and> only_list n ts)"
| "only_list n (t # ts) = only_list n ts"

fun list_names :: "val list \<Rightarrow> string set" where
  "list_names [] = {}"
| "list_names (ParamValue n v l # ts) = (if l then insert n (list_names ts) else list_names ts)"
| "list_names (t # ts) = list_names ts"

fun unmixed :: "val list \<Rightarrow> bool" where
  "unmixed [] = True"
| "unmixed (ParamValue n v l # ts) = ((l \<or> n \<notin> list_names ts) \<and> unmixed ts)"
| "unmixed (t # ts) = unmixed ts"

text \<open>The attribute names of a node.\<close>

definition keys :: "node \<Rightarrow> string set" where
  "keys n = fst ` set (node_items n)"


text \<open>
  The one production \<open>postParse\<close> treats specially: the tag \<open>ServiceGraphPattern\<close> with
  no evaluation function registered.
\<close>

definition special :: "comp \<Rightarrow> bool" where
  "special c = (comp_name c = ''ServiceGraphPattern'' \<and> comp_evalfn c = None)"

text \<open>
  The text of a row is its fields with a tab in front of every field but the first:
  \<open>f @ sep fs\<close> is the row of the fields \<open>f # fs\<close>. \<open>TERM_length\<close> is the number of
  characters that \<open>TERM\<close> matches at the beginning of a text, from the token rules alone.
  A field is well formed for the token rules (\<open>field_ok\<close>) when it is blank, or when
  \<open>EMPTY\<close> does not match in front of it and \<open>TERM\<close> matches the text of the field and
  nothing after it, blanks at the end of the field left aside.
\<close>

definition sep :: "string list \<Rightarrow> string" where
  "sep fs = concat (map ((#) tab) fs)"






section \<open>Example objects\<close>

text \<open>
  A store in which nothing has been created yet, contexts, evaluation functions and
  productions used to run the definitions on concrete inputs.
\<close>

definition store0 :: store where
  "store0 = \<lparr>objs = (\<lambda>a. \<lparr>node_class = CompValue, node_name = [], node_items = [],
                          node_ctx = Unset, node_evalfn = None\<rparr>), next_addr = 0\<rparr>"

definition ctx0 :: ctx where
  "ctx0 = (\<lambda>v. PyNone)"

definition ctx1 :: ctx where
  "ctx1 = ctx0(Variable ''e'' := Error (EvalError ''boom''), Variable ''b'' := Str ''bound'')"

definition no_fns :: evalfns where
  "no_fns f self c s = (Inr PyNone, s)"

definition demo_fns :: evalfns where
  "demo_fns f self c s =
     (if f = 0 then CompValue_get no_fns self ''x'' False False s
      else if f = 1 then (Inl (Exception ''defect''), s)
      else (Inr (Str ''done''), s))"

definition expr_store :: "fnid option \<Rightarrow> store" where
  "expr_store f = snd (Expr_init ''Demo'' f [(''x'', Variable ''x'')] store0)"

definition whole_input :: matcher where
  "whole_input instring p = (if p = 0 then Some (0, length instring) else None)"

definition sgp :: comp where
  "sgp = Comp_init ''ServiceGraphPattern'' whole_input"


definition demo_tokens :: "val list" where
  "demo_tokens = [Str ''BASE'', ParamValue ''iri'' (URIRef ''a'') False, Str '','',
                  ParamValue ''iri'' (URIRef ''b'') False, ParamValue ''x'' (Str ''1'') False]"
















section \<open>Basic facts about the store operations\<close>

lemma objs_set_ctx: "objs (set_ctx self c s) self = (objs s self)\<lparr>node_ctx := Attached c\<rparr>"
  by (simp add: set_ctx_def)

lemma has_key_keys: "has_key (node_items n) k = (k \<in> keys n)"
  by (simp add: has_key_def keys_def map_of_eq_None_iff)

lemma objs_setitem:
  "objs (setitem res k v s) a =
     (if a = res then (objs s res)\<lparr>node_items := AList.update k v (node_items (objs s res))\<rparr>
      else objs s a)"
  by (simp add: setitem_def)

lemma next_addr_setitem: "next_addr (setitem res k v s) = next_addr s"
  by (simp add: setitem_def)

lemma keys_dom: "keys n = dom (map_of (node_items n))"
  by (simp add: keys_def dom_map_of_conv_image_fst)

lemma keys_setitem: "keys (objs (setitem res k v s) res) = insert k (keys (objs s res))"
  by (simp add: keys_dom objs_setitem update_conv')

lemma map_of_setitem:
  "map_of (node_items (objs (setitem res k v s) res)) = (map_of (node_items (objs s res)))(k \<mapsto> v)"
  by (simp add: objs_setitem update_conv')

lemma ctx_setitem: "node_ctx (objs (setitem res k v s) a) = node_ctx (objs s a)"
  by (simp add: objs_setitem)

lemma store0_simps: "next_addr store0 = 0"
  "objs store0 a = \<lparr>node_class = CompValue, node_name = [], node_items = [],
                          node_ctx = Unset, node_evalfn = None\<rparr>"
  by (simp_all add: store0_def)

lemma expr_store_0:
  "objs (expr_store f) 0 = \<lparr>node_class = Expr, node_name = ''Demo'',
      node_items = [(''x'', Variable ''x'')], node_ctx = Unset, node_evalfn = f\<rparr>"
  by (simp add: expr_store_def Expr_init_def alloc_def store0_def)

section \<open>\<open>Expr.eval\<close>: the context is detached, domain errors become values\<close>

lemma snd_Expr_eval:
  "snd (Expr_eval fns self c s) =
     set_ctx self None
       (snd (case node_evalfn (objs s self) of
               None \<Rightarrow> (Inl TypeError, set_ctx self (Some c) s)
             | Some f \<Rightarrow> fns f self c (set_ctx self (Some c) s)))"
  by (simp add: Expr_eval_def Let_def objs_set_ctx split: prod.splits sum.splits exn.splits option.splits)

lemma fst_Expr_eval:
  "fst (Expr_eval fns self c s) =
     (case fst (case node_evalfn (objs s self) of
               None \<Rightarrow> (Inl TypeError, set_ctx self (Some c) s)
             | Some f \<Rightarrow> fns f self c (set_ctx self (Some c) s)) of
        Inl (SPARQLError e) \<Rightarrow> Inr (Error e)
      | r \<Rightarrow> r)"
  by (simp add: Expr_eval_def Let_def objs_set_ctx split: prod.splits sum.splits exn.splits option.splits)

text \<open>
  C1. Whatever the evaluation function bound to a node does (return, raise an
  evaluation-domain error, raise anything else, change the store), and also when no
  function is bound, the store \<open>eval\<close> leaves has the node's \<open>ctx\<close> attribute assigned
  \<open>None\<close>, and reading \<open>self.ctx\<close> there gives \<open>None\<close>. The evaluation function is taken to
  finish; the three ways of finishing are the values of its result.
\<close>

theorem Expr_eval_detaches_ctx:
  "node_ctx (objs (snd (Expr_eval fns self c s)) self) = Attached None
   \<and> read_ctx (objs (snd (Expr_eval fns self c s)) self) = Inr None"
  by (simp add: snd_Expr_eval objs_set_ctx read_ctx_def)

text \<open>
  While the evaluation function runs, the context is attached: the function is called on
  the store in which the node's \<open>ctx\<close> is the context given to \<open>eval\<close>.
\<close>

lemma Expr_eval_attaches_ctx:
  "node_ctx (objs (set_ctx self (Some c) s) self) = Attached (Some c)"
  by (simp add: objs_set_ctx)

text \<open>A node that has just been created has no context either: its attribute is unset.\<close>

lemma new_node_detached:
  "node_ctx (objs (snd (CompValue_init name values s)) (fst (CompValue_init name values s))) = Unset"
  "node_ctx (objs (snd (Expr_init name f values s)) (fst (Expr_init name f values s))) = Unset"
  by (simp_all add: CompValue_init_def Expr_init_def alloc_def)

text \<open>
  C2. When the bound evaluation function raises an evaluation-domain error, \<open>eval\<close>
  returns that error as its value; an exception that is not an evaluation-domain error
  leaves \<open>eval\<close> as raised; a returned value is returned. With no function bound the call
  raises \<open>TypeError\<close>, which also propagates.
\<close>

theorem Expr_eval_catches_domain_errors:
  "(node_evalfn (objs s self) = Some f \<and>
      fst (fns f self c (set_ctx self (Some c) s)) = Inl (SPARQLError e)
      \<longrightarrow> fst (Expr_eval fns self c s) = Inr (Error e))
   \<and> (node_evalfn (objs s self) = Some f \<and>
      fst (fns f self c (set_ctx self (Some c) s)) = Inl x \<and> (\<forall>e'. x \<noteq> SPARQLError e')
      \<longrightarrow> fst (Expr_eval fns self c s) = Inl x)
   \<and> (node_evalfn (objs s self) = Some f \<and>
      fst (fns f self c (set_ctx self (Some c) s)) = Inr v
      \<longrightarrow> fst (Expr_eval fns self c s) = Inr v)
   \<and> (node_evalfn (objs s self) = None \<longrightarrow> fst (Expr_eval fns self c s) = Inl TypeError)"
  by (cases x) (simp_all add: fst_Expr_eval)

text \<open>
  Witness: a node whose function reads an attribute holding an unbound variable (the
  \<open>NotBoundError\<close> of the nested resolution comes back as a value), one whose function
  raises a plain \<open>Exception\<close>, one whose function returns, and one without a function.
\<close>

theorem Expr_eval_catches_domain_errors_witness:
  "fst (Expr_eval demo_fns 0 ctx0 (expr_store (Some 0))) = Inr (Error NotBoundError)
   \<and> fst (Expr_eval demo_fns 0 ctx0 (expr_store (Some 1))) = Inl (Exception ''defect'')
   \<and> fst (Expr_eval demo_fns 0 ctx0 (expr_store (Some 2))) = Inr (Str ''done'')
   \<and> fst (Expr_eval demo_fns 0 ctx0 (expr_store None)) = Inl TypeError"
  using Expr_eval_catches_domain_errors [where s = "expr_store (Some 0)" and self = 0 and f = 0 and fns = demo_fns
      and c = ctx0 and e = NotBoundError]
    Expr_eval_catches_domain_errors [where s = "expr_store (Some 1)" and self = 0 and f = 1 and fns = demo_fns
      and c = ctx0 and x = "Exception ''defect''"]
    Expr_eval_catches_domain_errors [where s = "expr_store (Some 2)" and self = 0 and f = 2 and fns = demo_fns
      and c = ctx0 and v = "Str ''done''"]
    Expr_eval_catches_domain_errors [where s = "expr_store None" and self = 0 and fns = demo_fns and c = ctx0]
  by (simp add: expr_store_0 demo_fns_def CompValue_get_def CompValue_value_def read_ctx_def
      objs_set_ctx lookup_def ctx0_def)

section \<open>\<open>value\<close>: placeholders and the identity case\<close>

text \<open>
  C3. For a variable or blank-node placeholder \<open>v\<close>: a stored error is raised when
  \<open>errors\<close> is false; a bound value (an error too, when \<open>errors\<close> is true) is returned;
  an unbound \<open>v\<close> is returned unchanged when \<open>variables\<close> is true and raises
  \<open>NotBoundError\<close> otherwise. The store is not changed.
\<close>

theorem value_resolves_placeholder:
  "is_placeholder v \<Longrightarrow>
   (\<forall>e. c v = Error e \<and> \<not> errors \<longrightarrow>
      value_py fns c v variables errors s = (Inl (SPARQLError e), s))
   \<and> (c v \<noteq> PyNone \<and> (\<not> is_Error (c v) \<or> errors) \<longrightarrow>
      value_py fns c v variables errors s = (Inr (c v), s))
   \<and> (c v = PyNone \<and> variables \<longrightarrow> value_py fns c v variables errors s = (Inr v, s))
   \<and> (c v = PyNone \<and> \<not> variables \<longrightarrow>
      value_py fns c v variables errors s = (Inl (SPARQLError NotBoundError), s))"
  by (cases v) (auto simp: lookup_def Let_def)

theorem value_resolves_placeholder_witness:
  "value_py no_fns ctx1 (Variable ''e'') False False store0 = (Inl (SPARQLError (EvalError ''boom'')), store0)
   \<and> value_py no_fns ctx1 (Variable ''b'') False False store0 = (Inr (Str ''bound''), store0)
   \<and> value_py no_fns ctx1 (BNode ''u'') True False store0 = (Inr (BNode ''u''), store0)
   \<and> value_py no_fns ctx1 (Variable ''u'') False False store0 = (Inl (SPARQLError NotBoundError), store0)"
  using value_resolves_placeholder [of "Variable ''e''" ctx1 False no_fns False store0]
    value_resolves_placeholder [of "Variable ''b''" ctx1 False no_fns False store0]
    value_resolves_placeholder [of "BNode ''u''" ctx1 False no_fns True store0]
    value_resolves_placeholder [of "Variable ''u''" ctx1 False no_fns False store0]
  by (simp add: ctx1_def ctx0_def)

text \<open>
  C8. A value that is no node (evaluable or not), no list, no variable or blank-node
  placeholder and no single-element \<open>ParseResults\<close> is returned unchanged, in an
  unchanged store.
\<close>

theorem value_identity_on_concrete:
  "\<not> is_node v \<Longrightarrow> \<not> is_list v \<Longrightarrow> \<not> is_placeholder v \<Longrightarrow> \<not> is_single_match v \<Longrightarrow>
   value_py fns c v variables errors s = (Inr v, s)"
proof (cases v)
  case (ParseResults xs)
  assume "\<not> is_single_match v"
  with ParseResults show ?thesis
    by (cases xs; cases "tl xs") auto
qed auto

theorem value_identity_on_concrete_witness:
  "value_py no_fns ctx1 (RDFLiteral (Str ''hi'') (Str ''en'') PyNone) False False store0
     = (Inr (RDFLiteral (Str ''hi'') (Str ''en'') PyNone), store0)
   \<and> value_py no_fns ctx1 (ParseResults []) False False store0 = (Inr (ParseResults []), store0)"
  using value_identity_on_concrete [of "RDFLiteral (Str ''hi'') (Str ''en'') PyNone" no_fns ctx1 False False store0]
    value_identity_on_concrete [of "ParseResults []" no_fns ctx1 False False store0]
  by simp

section \<open>\<open>Comp.postParse\<close>: the loop over the tokens\<close>

lemma step_scalar:
  "postParse_step fns res (ParamValue n v False) s = (Inr (), setitem res n v s)"
  by (simp add: postParse_step_def)

lemma loop_scalar:
  "all_scalar ts \<Longrightarrow>
   fst (postParse_loop fns res ts s) = Inr ()
   \<and> keys (objs (snd (postParse_loop fns res ts s)) res) = keys (objs s res) \<union> labelled_names ts
   \<and> (\<forall>n. map_of (node_items (objs (snd (postParse_loop fns res ts s)) res)) n =
         (case last_labelled n ts of Some w \<Rightarrow> Some w | None \<Rightarrow> map_of (node_items (objs s res)) n))"
proof (induction ts arbitrary: s)
  case Nil
  then show ?case by simp
next
  case (Cons t ts)
  show ?case
  proof (cases t)
    case (ParamValue n v l)
    with Cons.prems have l: "\<not> l" and ts: "all_scalar ts" by simp_all
    from Cons.IH [OF ts, of "setitem res n v s"] ParamValue l
    show ?thesis
      by (auto simp: step_scalar objs_setitem keys_def update_conv' dom_update
          simp flip: dom_map_of_conv_image_fst split: option.splits)
  qed (use Cons in \<open>simp_all add: postParse_step_def\<close>)
qed

lemma getitem_Unset:
  "node_ctx (objs s res) = Unset \<Longrightarrow>
   CompValue_getitem fns res n s =
     (case map_of (node_items (objs s res)) n of
        None \<Rightarrow> (Inl KeyError, s)
      | Some raw \<Rightarrow> if ''ctx'' \<in> keys (objs s res) then (Inl RecursionError, s) else (Inr raw, s))"
  by (simp add: CompValue_getitem_def CompValue_value_def read_ctx_def has_key_keys split: option.splits)

lemma py_append_cases:
  "py_append fns obj v s = (Inr obj', s') \<Longrightarrow>
   s' = s \<and> ((\<exists>xs. obj = PList xs \<and> obj' = PList (xs @ [v])) \<or>
             (\<exists>xs. obj = PyList xs \<and> obj' = PyList (xs @ [v])) \<or>
             (\<exists>xs. obj = ParseResults xs \<and> obj' = ParseResults (xs @ [v])))"
  by (cases obj) (auto simp: py_append_def split: prod.splits sum.splits)

lemma step_list:
  assumes "node_ctx (objs s res) = Unset"
    and "postParse_step fns res (ParamValue n v True) s = (Inr u, s')"
  shows "\<exists>obj'. s' = setitem res n obj' (if n \<in> keys (objs s res) then s else setitem res n (PList []) s)
           \<and> ''ctx'' \<notin> insert n (keys (objs s res))
           \<and> (map_of (node_items (objs s res)) n = None \<longrightarrow> obj' = PList [v])
           \<and> (\<forall>xs. map_of (node_items (objs s res)) n = Some (PList xs) \<longrightarrow> obj' = PList (xs @ [v]))"
proof -
  let ?s1 = "if n \<in> keys (objs s res) then s else setitem res n (PList []) s"
  have u: "node_ctx (objs ?s1 res) = Unset"
    using assms(1) by (simp add: ctx_setitem)
  have k: "keys (objs ?s1 res) = insert n (keys (objs s res))"
    by (auto simp: keys_setitem)
  have m: "map_of (node_items (objs ?s1 res)) n =
      (case map_of (node_items (objs s res)) n of None \<Rightarrow> Some (PList []) | Some w \<Rightarrow> Some w)"
    by (auto simp: map_of_setitem keys_dom split: option.splits)
  from assms(2) have "(case CompValue_getitem fns res n ?s1 of
                  (Inl e, s2) \<Rightarrow> (Inl e, s2)
                | (Inr obj, s2) \<Rightarrow>
                    (case py_append fns obj v s2 of
                       (Inl e, s3) \<Rightarrow> (Inl e, s3)
                     | (Inr obj', s3) \<Rightarrow> (Inr (), setitem res n obj' s3))) = (Inr u, s')"
    by (cases "n \<in> keys (objs s res)") (simp_all add: postParse_step_def has_key_keys Let_def)
  then obtain obj obj' s2 s3 where
    g: "CompValue_getitem fns res n ?s1 = (Inr obj, s2)" and
    a: "py_append fns obj v s2 = (Inr obj', s3)" and
    s': "s' = setitem res n obj' s3"
    by (auto split: prod.splits sum.splits)
  from g have nc: "''ctx'' \<notin> insert n (keys (objs s res))" and s2: "s2 = ?s1"
    and obj: "map_of (node_items (objs ?s1 res)) n = Some obj"
    unfolding getitem_Unset [OF u] k by (auto split: option.splits if_splits)
  from py_append_cases [OF a] have s3: "s3 = s2" and
    c: "(\<exists>xs. obj = PList xs \<and> obj' = PList (xs @ [v])) \<or>
             (\<exists>xs. obj = PyList xs \<and> obj' = PyList (xs @ [v])) \<or>
             (\<exists>xs. obj = ParseResults xs \<and> obj' = ParseResults (xs @ [v]))"
    by simp_all
  from obj m c have "map_of (node_items (objs s res)) n = None \<longrightarrow> obj' = PList [v]"
    and "\<forall>xs. map_of (node_items (objs s res)) n = Some (PList xs) \<longrightarrow> obj' = PList (xs @ [v])"
    by (auto split: option.splits)
  with s' s2 s3 nc show ?thesis by - (rule exI [of _ obj'], simp)
qed

lemma step_frame:
  assumes "node_ctx (objs s res) = Unset"
    and "postParse_step fns res t s = (Inr u, s')"
  shows "node_ctx (objs s' res) = Unset"
    and "(\<forall>v l. t \<noteq> ParamValue n v l) \<Longrightarrow>
         map_of (node_items (objs s' res)) n = map_of (node_items (objs s res)) n"
    and "t = ParamValue n v False \<Longrightarrow> map_of (node_items (objs s' res)) n = Some v"
proof -
  have "node_ctx (objs s' res) = Unset
    \<and> ((\<forall>v l. t \<noteq> ParamValue n v l) \<longrightarrow>
         map_of (node_items (objs s' res)) n = map_of (node_items (objs s res)) n)
    \<and> (t = ParamValue n v False \<longrightarrow> map_of (node_items (objs s' res)) n = Some v)"
  proof (cases t)
    case (ParamValue m w l)
    show ?thesis
    proof (cases l)
      case True
      with assms(2) ParamValue
      have st: "postParse_step fns res (ParamValue m w True) s = (Inr u, s')" by simp
      from step_list [OF assms(1) st]
      show ?thesis using assms(1) ParamValue True
        by (auto simp: ctx_setitem map_of_setitem)
    next
      case False
      with assms ParamValue show ?thesis
        by (auto simp: step_scalar ctx_setitem map_of_setitem)
    qed
  qed (use assms in \<open>auto simp: postParse_step_def\<close>)
  then show "node_ctx (objs s' res) = Unset"
    and "(\<forall>v l. t \<noteq> ParamValue n v l) \<Longrightarrow>
         map_of (node_items (objs s' res)) n = map_of (node_items (objs s res)) n"
    and "t = ParamValue n v False \<Longrightarrow> map_of (node_items (objs s' res)) n = Some v"
    by blast+
qed


lemma loop_list:
  "node_ctx (objs s res) = Unset \<Longrightarrow> only_list n ts \<Longrightarrow>
   postParse_loop fns res ts s = (Inr u, s') \<Longrightarrow>
   (map_of (node_items (objs s res)) n = None \<longrightarrow>
      map_of (node_items (objs s' res)) n =
        (if values_of n ts = [] then None else Some (PList (values_of n ts))))
   \<and> (\<forall>xs. map_of (node_items (objs s res)) n = Some (PList xs) \<longrightarrow>
      map_of (node_items (objs s' res)) n = Some (PList (xs @ values_of n ts)))"
proof (induction ts arbitrary: s)
  case Nil
  then show ?case by simp
next
  case (Cons t ts)
  from Cons.prems(3) obtain u1 s1 where
    st: "postParse_step fns res t s = (Inr u1, s1)" and
    lp: "postParse_loop fns res ts s1 = (Inr u, s')"
    by (auto split: prod.splits sum.splits)
  note f = step_frame [OF Cons.prems(1) st]
  have ol: "only_list n ts" using Cons.prems(2) by (cases t) auto
  note IH = Cons.IH [OF f(1) ol lp]
  show ?case
  proof (cases "\<exists>v. t = ParamValue n v True")
    case True
    then obtain v where t: "t = ParamValue n v True" by blast
    from st t have st': "postParse_step fns res (ParamValue n v True) s = (Inr u1, s1)" by simp
    from step_list [OF Cons.prems(1) st'] IH t show ?thesis
      by (auto simp: map_of_setitem)
  next
    case False
    with Cons.prems(2) have "\<forall>v l. t \<noteq> ParamValue n v l"
      by (cases t) auto
    with f(2) [of n] IH show ?thesis
      by (cases t) auto
  qed
qed

lemma step_list_ok:
  assumes "node_ctx (objs s res) = Unset" and "''ctx'' \<notin> insert n (keys (objs s res))"
    and "map_of (node_items (objs s res)) n = None \<or> (\<exists>xs. map_of (node_items (objs s res)) n = Some (PList xs))"
  shows "fst (postParse_step fns res (ParamValue n v True) s) = Inr ()"
proof (cases "map_of (node_items (objs s res)) n")
  case None
  then have "n \<notin> keys (objs s res)" by (simp add: keys_dom domIff)
  with assms None show ?thesis
    by (simp add: postParse_step_def has_key_keys getitem_Unset ctx_setitem map_of_setitem
        keys_setitem py_append_def)
next
  case (Some w)
  then have "n \<in> keys (objs s res)" by (auto simp: keys_dom)
  with assms Some show ?thesis
    by (auto simp: postParse_step_def has_key_keys getitem_Unset py_append_def)
qed

lemma loop_success:
  "node_ctx (objs s res) = Unset \<Longrightarrow>
   ''ctx'' \<notin> keys (objs s res) \<union> labelled_names ts \<Longrightarrow>
   unmixed ts \<Longrightarrow>
   (\<forall>n\<in>list_names ts. map_of (node_items (objs s res)) n = None
        \<or> (\<exists>xs. map_of (node_items (objs s res)) n = Some (PList xs))) \<Longrightarrow>
   fst (postParse_loop fns res ts s) = Inr ()"
proof (induction ts arbitrary: s)
  case Nil
  then show ?case by simp
next
  case (Cons t ts)
  show ?case
  proof (cases t)
    case (ParamValue n v l)
    show ?thesis
    proof (cases l)
      case True
      with Cons.prems ParamValue have
        ok: "fst (postParse_step fns res (ParamValue n v True) s) = Inr ()"
        by (intro step_list_ok) auto
      then obtain s1 where st: "postParse_step fns res (ParamValue n v True) s = (Inr (), s1)"
        by (cases "postParse_step fns res (ParamValue n v True) s") auto
      from step_list [OF Cons.prems(1) st] obtain obj' where
        s1: "s1 = setitem res n obj' (if n \<in> keys (objs s res) then s else setitem res n (PList []) s)"
        and o1: "map_of (node_items (objs s res)) n = None \<longrightarrow> obj' = PList [v]"
        and o2: "\<forall>xs. map_of (node_items (objs s res)) n = Some (PList xs) \<longrightarrow> obj' = PList (xs @ [v])"
        by auto
      from Cons.prems(4) ParamValue True have
        "map_of (node_items (objs s res)) n = None
          \<or> (\<exists>xs. map_of (node_items (objs s res)) n = Some (PList xs))" by simp
      with o1 o2 obtain ys where obj': "obj' = PList ys" by auto
      have "fst (postParse_loop fns res ts s1) = Inr ()"
      proof (rule Cons.IH)
        show "node_ctx (objs s1 res) = Unset"
          using Cons.prems(1) by (simp add: s1 ctx_setitem)
        show "''ctx'' \<notin> keys (objs s1 res) \<union> labelled_names ts"
          using Cons.prems(2) ParamValue by (auto simp: s1 keys_setitem)
        show "unmixed ts" using Cons.prems(3) ParamValue by simp
        show "\<forall>n\<in>list_names ts. map_of (node_items (objs s1 res)) n = None
            \<or> (\<exists>xs. map_of (node_items (objs s1 res)) n = Some (PList xs))"
          using Cons.prems(4) ParamValue True by (auto simp: s1 map_of_setitem obj')
      qed
      with st ParamValue True show ?thesis by simp
    next
      case False
      have "fst (postParse_loop fns res ts (setitem res n v s)) = Inr ()"
      proof (rule Cons.IH)
        show "node_ctx (objs (setitem res n v s) res) = Unset"
          using Cons.prems(1) by (simp add: ctx_setitem)
        show "''ctx'' \<notin> keys (objs (setitem res n v s) res) \<union> labelled_names ts"
          using Cons.prems(2) ParamValue by (auto simp: keys_setitem)
        show "unmixed ts" using Cons.prems(3) ParamValue by simp
        show "\<forall>m\<in>list_names ts. map_of (node_items (objs (setitem res n v s) res)) m = None
            \<or> (\<exists>xs. map_of (node_items (objs (setitem res n v s) res)) m = Some (PList xs))"
          using Cons.prems(3,4) ParamValue False by (auto simp: map_of_setitem)
      qed
      with ParamValue False show ?thesis by (simp add: step_scalar)
    qed
  qed (use Cons in \<open>simp_all add: postParse_step_def\<close>)
qed

section \<open>\<open>Comp.postParse\<close>: the node it starts from\<close>

lemma find_least:
  assumes "P p" and "p < n" and "\<forall>q<p. \<not> P q"
  shows "List.find P [0..<n] = Some p"
  unfolding find_Some_iff
  by (rule exI [of _ p]) (use assms in auto)




lemma searchString_first_least:
  assumes "m (expandtabs instring) p = Some (b, e)" and "p \<le> length (expandtabs instring)"
    and "\<forall>q<p. m (expandtabs instring) q = None"
  shows "searchString_first m instring = Inr (take (e - b) (drop b (expandtabs instring)))"
proof -
  have "List.find (\<lambda>p. m (expandtabs instring) p \<noteq> None) [0..<Suc (length (expandtabs instring))] = Some p"
    by (rule find_least) (use assms in auto)
  with assms(1) show ?thesis by (simp add: searchString_first_def)
qed

lemma searchString_whole: "searchString_first whole_input instring = Inr (expandtabs instring)"
  using searchString_first_least [of whole_input instring 0 0 "length (expandtabs instring)"]
  by (simp add: whole_input_def)


lemmas eval_defs = Comp_postParse_def Comp_init_def setEvalFn_def CompValue_init_def Expr_init_def
  alloc_def set_evalfn_def setitem_def postParse_step_def has_key_def CompValue_getitem_def
  CompValue_value_def read_ctx_def py_append_def searchString_whole sgp_def store0_simps
  expandtabs_def tab_def newline_def

lemma postParse_Expr:
  assumes "comp_evalfn c = Some f"
  shows "\<exists>s0. objs s0 (next_addr s) = \<lparr>node_class = Expr, node_name = comp_name c, node_items = [],
               node_ctx = Unset, node_evalfn = Some f\<rparr>
           \<and> Comp_postParse fns c instring loc ts s =
               (case postParse_loop fns (next_addr s) ts s0 of
                  (Inl e, s') \<Rightarrow> (Inl e, s')
                | (Inr u, s') \<Rightarrow> (Inr (Ref (next_addr s)), s'))"
  using assms
  by (intro exI [of _ "set_evalfn (next_addr s) (Some f) (snd (Expr_init (comp_name c) None [] s))"])
     (simp add: Comp_postParse_def Expr_init_def alloc_def set_evalfn_def)

lemma postParse_CompValue:
  assumes "comp_evalfn c = None" and "comp_name c \<noteq> ''ServiceGraphPattern''"
  shows "\<exists>s0. objs s0 (next_addr s) = \<lparr>node_class = CompValue, node_name = comp_name c, node_items = [],
               node_ctx = Unset, node_evalfn = None\<rparr>
           \<and> Comp_postParse fns c instring loc ts s =
               (case postParse_loop fns (next_addr s) ts s0 of
                  (Inl e, s') \<Rightarrow> (Inl e, s')
                | (Inr u, s') \<Rightarrow> (Inr (Ref (next_addr s)), s'))"
  using assms
  by (intro exI [of _ "snd (CompValue_init (comp_name c) [] s)"])
     (simp add: Comp_postParse_def CompValue_init_def alloc_def)

lemma postParse_special:
  assumes "comp_evalfn c = None" and "comp_name c = ''ServiceGraphPattern''"
    and "searchString_first (comp_expr c) instring = Inr txt"
  shows "\<exists>s0. objs s0 (next_addr s) = \<lparr>node_class = CompValue, node_name = comp_name c,
               node_items = [(''service_string'', Str txt)],
               node_ctx = Unset, node_evalfn = None\<rparr>
           \<and> Comp_postParse fns c instring loc ts s =
               (case postParse_loop fns (next_addr s) ts s0 of
                  (Inl e, s') \<Rightarrow> (Inl e, s')
                | (Inr u, s') \<Rightarrow> (Inr (Ref (next_addr s)), s'))"
  using assms
  by (intro exI [of _ "setitem (next_addr s) ''service_string'' (Str txt) (snd (CompValue_init (comp_name c) [] s))"])
     (simp add: Comp_postParse_def CompValue_init_def alloc_def setitem_def)

lemma postParse_special_fails:
  assumes "comp_evalfn c = None" and "comp_name c = ''ServiceGraphPattern''"
    and "searchString_first (comp_expr c) instring = Inl e"
  shows "fst (Comp_postParse fns c instring loc ts s) = Inl e"
  using assms by (simp add: Comp_postParse_def CompValue_init_def alloc_def)

lemma postParse_start:
  "\<exists>s0. node_ctx (objs s0 (next_addr s)) = Unset
     \<and> node_items (objs s0 (next_addr s)) =
           (if special c then (case searchString_first (comp_expr c) instring of
                            Inr str \<Rightarrow> [(''service_string'', Str str)] | Inl e \<Rightarrow> []) else [])
     \<and> (Comp_postParse fns c instring loc ts s =
               (case postParse_loop fns (next_addr s) ts s0 of
                  (Inl e, s') \<Rightarrow> (Inl e, s')
                | (Inr u, s') \<Rightarrow> (Inr (Ref (next_addr s)), s'))
         \<or> (\<exists>e. special c \<and> searchString_first (comp_expr c) instring = Inl e
                \<and> fst (Comp_postParse fns c instring loc ts s) = Inl e))"
proof (cases "comp_evalfn c")
  case None
  show ?thesis
  proof (cases "comp_name c = ''ServiceGraphPattern''")
    case True
    show ?thesis
    proof (cases "searchString_first (comp_expr c) instring")
      case (Inl e)
      have "fst (Comp_postParse fns c instring loc ts s) = Inl e"
        by (rule postParse_special_fails [OF None True Inl])
      with None True Inl show ?thesis
        by (intro exI [of _ "snd (CompValue_init (comp_name c) [] s)"])
           (simp add: special_def CompValue_init_def alloc_def)
    next
      case (Inr str)
      from postParse_special [OF None True Inr, of s fns loc ts] obtain s0 where
        "objs s0 (next_addr s) = \<lparr>node_class = CompValue, node_name = comp_name c,
               node_items = [(''service_string'', Str str)],
               node_ctx = Unset, node_evalfn = None\<rparr>"
        "Comp_postParse fns c instring loc ts s =
               (case postParse_loop fns (next_addr s) ts s0 of
                  (Inl e, s') \<Rightarrow> (Inl e, s')
                | (Inr u, s') \<Rightarrow> (Inr (Ref (next_addr s)), s'))"
        by auto
      with None True Inr show ?thesis
        by (intro exI [of _ s0]) (simp add: special_def)
    qed
  next
    case False
    from postParse_CompValue [OF None False, of s fns instring loc ts] obtain s0 where
      "objs s0 (next_addr s) = \<lparr>node_class = CompValue, node_name = comp_name c, node_items = [],
               node_ctx = Unset, node_evalfn = None\<rparr>"
      "Comp_postParse fns c instring loc ts s =
               (case postParse_loop fns (next_addr s) ts s0 of
                  (Inl e, s') \<Rightarrow> (Inl e, s')
                | (Inr u, s') \<Rightarrow> (Inr (Ref (next_addr s)), s'))"
      by auto
    with None False show ?thesis
      by (intro exI [of _ s0]) (simp add: special_def)
  qed
next
  case (Some f)
  from postParse_Expr [OF Some, of s fns instring loc ts] obtain s0 where
    "objs s0 (next_addr s) = \<lparr>node_class = Expr, node_name = comp_name c, node_items = [],
               node_ctx = Unset, node_evalfn = Some f\<rparr>"
    "Comp_postParse fns c instring loc ts s =
               (case postParse_loop fns (next_addr s) ts s0 of
                  (Inl e, s') \<Rightarrow> (Inl e, s')
                | (Inr u, s') \<Rightarrow> (Inr (Ref (next_addr s)), s'))"
    by auto
  with Some show ?thesis
    by (intro exI [of _ s0]) (simp add: special_def)
qed

lemma postParse_list_attribute:
  assumes "only_list n ts" and "n \<noteq> ''service_string''"
    and "fst (Comp_postParse fns c instring loc ts s) = Inr r"
  shows "map_of (node_items (objs (snd (Comp_postParse fns c instring loc ts s)) (next_addr s))) n
           = (if values_of n ts = [] then None else Some (PList (values_of n ts)))"
proof -
  from postParse_start [of s c instring fns loc ts] obtain s0 where
    c0: "node_ctx (objs s0 (next_addr s)) = Unset" and
    i0: "node_items (objs s0 (next_addr s)) =
           (if special c then (case searchString_first (comp_expr c) instring of
                            Inr str \<Rightarrow> [(''service_string'', Str str)] | Inl e \<Rightarrow> []) else [])" and
    pp: "Comp_postParse fns c instring loc ts s =
               (case postParse_loop fns (next_addr s) ts s0 of
                  (Inl e, s') \<Rightarrow> (Inl e, s')
                | (Inr u, s') \<Rightarrow> (Inr (Ref (next_addr s)), s'))
         \<or> (\<exists>e. special c \<and> searchString_first (comp_expr c) instring = Inl e
                \<and> fst (Comp_postParse fns c instring loc ts s) = Inl e)"
    by blast
  obtain s' where s': "s' = snd (Comp_postParse fns c instring loc ts s)" by simp
  with pp assms(3) obtain u where lp: "postParse_loop fns (next_addr s) ts s0 = (Inr u, s')"
    by (auto split: prod.splits sum.splits)
  have "map_of (node_items (objs s0 (next_addr s))) n = None"
    using i0 assms(2)
    apply (cases "special c")
     apply (cases "searchString_first (comp_expr c) instring")
      apply simp_all
    done
  with loop_list [OF c0 assms(1) lp] show ?thesis
    by (simp flip: s')
qed

lemma postParse_succeeds:
  assumes "''ctx'' \<notin> labelled_names ts" and "unmixed ts" and "''service_string'' \<notin> list_names ts"
    and "special c \<longrightarrow> (\<exists>str. searchString_first (comp_expr c) instring = Inr str)"
  shows "fst (Comp_postParse fns c instring loc ts s) = Inr (Ref (next_addr s))"
proof -
  from postParse_start [of s c instring fns loc ts] obtain s0 where
    c0: "node_ctx (objs s0 (next_addr s)) = Unset" and
    i0: "node_items (objs s0 (next_addr s)) =
           (if special c then (case searchString_first (comp_expr c) instring of
                            Inr str \<Rightarrow> [(''service_string'', Str str)] | Inl e \<Rightarrow> []) else [])" and
    pp: "Comp_postParse fns c instring loc ts s =
               (case postParse_loop fns (next_addr s) ts s0 of
                  (Inl e, s') \<Rightarrow> (Inl e, s')
                | (Inr u, s') \<Rightarrow> (Inr (Ref (next_addr s)), s'))
         \<or> (\<exists>e. special c \<and> searchString_first (comp_expr c) instring = Inl e
                \<and> fst (Comp_postParse fns c instring loc ts s) = Inl e)"
    by blast
  have k0: "keys (objs s0 (next_addr s)) \<subseteq> {''service_string''}"
    using i0
    apply (cases "special c")
     apply (cases "searchString_first (comp_expr c) instring")
      apply (simp_all add: keys_def)
    done
  have "fst (postParse_loop fns (next_addr s) ts s0) = Inr ()"
  proof (rule loop_success [OF c0])
    show "''ctx'' \<notin> keys (objs s0 (next_addr s)) \<union> labelled_names ts"
      using k0 assms(1) by auto
    show "unmixed ts" by (rule assms(2))
    show "\<forall>n\<in>list_names ts. map_of (node_items (objs s0 (next_addr s))) n = None
        \<or> (\<exists>xs. map_of (node_items (objs s0 (next_addr s))) n = Some (PList xs))"
      using k0 assms(3) by (auto simp: keys_dom domIff)
  qed
  then obtain s' where "postParse_loop fns (next_addr s) ts s0 = (Inr (), s')"
    by (cases "postParse_loop fns (next_addr s) ts s0") auto
  with pp assms(4) show ?thesis by auto
qed

lemma values_of_Param:
  "values_of n [Param_postParse2 \<lparr>param_name = n, param_isList = True\<rparr> raw] = [collapse raw]"
  by (simp add: Param_postParse2_def ParamValue_init_def)

section \<open>\<open>Comp.postParse\<close>: attribute names, last write wins, lists, \<open>service_string\<close>\<close>

text \<open>
  C5 as stated fails for the tag \<open>ServiceGraphPattern\<close> without an evaluation function:
  the node built from one scalar label \<open>term\<close> has the two attribute names
  \<open>service_string\<close> and \<open>term\<close>.
\<close>

theorem postParse_names_counterexample:
  "fst (Comp_postParse no_fns sgp ''SERVICE <u> {}'' 14 [ParamValue ''term'' (URIRef ''u'') False] store0)
     = Inr (Ref 0)
   \<and> labelled_names [ParamValue ''term'' (URIRef ''u'') False] = {''term''}
   \<and> keys (objs (snd (Comp_postParse no_fns sgp ''SERVICE <u> {}'' 14
              [ParamValue ''term'' (URIRef ''u'') False] store0)) 0)
       = {''service_string'', ''term''}
   \<and> keys (objs (snd (Comp_postParse no_fns sgp ''SERVICE <u> {}'' 14
              [ParamValue ''term'' (URIRef ''u'') False] store0)) 0)
       \<noteq> labelled_names [ParamValue ''term'' (URIRef ''u'') False]"
  by (auto simp: eval_defs keys_def)

text \<open>
  C5, amended. When every labelled token is scalar: for a production that is not the
  special one, \<open>postParse\<close> returns a new node whose attribute names are exactly the
  names of the labelled tokens, each holding the value of its last occurrence (tokens
  that are not labelled leave no trace, and nothing is raised); for the special
  production, when the text search finds a match, the names are those and
  \<open>service_string\<close>, each labelled name again holding the value of its last occurrence
  and \<open>service_string\<close>, when no token is labelled so, the text found.
\<close>

theorem postParse_scalar_names:
  "all_scalar ts \<Longrightarrow>
   (\<not> special c \<longrightarrow>
      fst (Comp_postParse fns c instring loc ts s) = Inr (Ref (next_addr s))
      \<and> keys (objs (snd (Comp_postParse fns c instring loc ts s)) (next_addr s)) = labelled_names ts
      \<and> (\<forall>n. map_of (node_items (objs (snd (Comp_postParse fns c instring loc ts s)) (next_addr s))) n
             = last_labelled n ts))
   \<and> (special c \<and> searchString_first (comp_expr c) instring = Inr txt \<longrightarrow>
      fst (Comp_postParse fns c instring loc ts s) = Inr (Ref (next_addr s))
      \<and> keys (objs (snd (Comp_postParse fns c instring loc ts s)) (next_addr s))
          = insert ''service_string'' (labelled_names ts)
      \<and> (\<forall>n. map_of (node_items (objs (snd (Comp_postParse fns c instring loc ts s)) (next_addr s))) n
             = (case last_labelled n ts of
                  Some w \<Rightarrow> Some w
                | None \<Rightarrow> if n = ''service_string'' then Some (Str txt) else None)))"
proof -
  assume sc: "all_scalar ts"
  from postParse_start [of s c instring fns loc ts] obtain s0 where
    c0: "node_ctx (objs s0 (next_addr s)) = Unset" and
    i0: "node_items (objs s0 (next_addr s)) = (if special c then (case searchString_first (comp_expr c) instring of
                            Inr str \<Rightarrow> [(''service_string'', Str str)] | Inl e \<Rightarrow> []) else [])" and
    pp: "Comp_postParse fns c instring loc ts s =
               (case postParse_loop fns (next_addr s) ts s0 of
                  (Inl e, s') \<Rightarrow> (Inl e, s')
                | (Inr u, s') \<Rightarrow> (Inr (Ref (next_addr s)), s'))
         \<or> (\<exists>e. special c \<and> searchString_first (comp_expr c) instring = Inl e
                \<and> fst (Comp_postParse fns c instring loc ts s) = Inl e)"
    by blast
  note l = loop_scalar [OF sc, of fns "next_addr s" s0]
  obtain u s' where lp: "postParse_loop fns (next_addr s) ts s0 = (Inr u, s')"
    using l by (cases "postParse_loop fns (next_addr s) ts s0") auto
  show ?thesis
  proof (intro conjI impI)
    assume ns: "\<not> special c"
    with pp lp have r: "Comp_postParse fns c instring loc ts s = (Inr (Ref (next_addr s)), s')"
      by auto
    show "fst (Comp_postParse fns c instring loc ts s) = Inr (Ref (next_addr s))"
      by (simp add: r)
    show "keys (objs (snd (Comp_postParse fns c instring loc ts s)) (next_addr s)) = labelled_names ts"
      using l ns i0 by (simp add: r lp keys_def)
    show "\<forall>n. map_of (node_items (objs (snd (Comp_postParse fns c instring loc ts s)) (next_addr s))) n
             = last_labelled n ts"
      using l ns i0 by (auto simp: r lp split: option.splits)
  next
    assume sp: "special c \<and> searchString_first (comp_expr c) instring = Inr txt"
    with pp lp have r: "Comp_postParse fns c instring loc ts s = (Inr (Ref (next_addr s)), s')"
      by auto
    show "fst (Comp_postParse fns c instring loc ts s) = Inr (Ref (next_addr s))"
      by (simp add: r)
    show "keys (objs (snd (Comp_postParse fns c instring loc ts s)) (next_addr s))
          = insert ''service_string'' (labelled_names ts)"
      using l sp i0 by (simp add: r lp keys_def)
    show "\<forall>n. map_of (node_items (objs (snd (Comp_postParse fns c instring loc ts s)) (next_addr s))) n
             = (case last_labelled n ts of
                  Some w \<Rightarrow> Some w
                | None \<Rightarrow> if n = ''service_string'' then Some (Str txt) else None)"
      using l sp i0 by (auto simp: r lp split: option.splits)
  qed
qed

theorem postParse_scalar_names_witness:
  "fst (Comp_postParse no_fns (Comp_init ''Base'' whole_input) ''BASE <a>, <b> 1'' 15 demo_tokens store0) = Inr (Ref 0)
   \<and> keys (objs (snd (Comp_postParse no_fns (Comp_init ''Base'' whole_input) ''BASE <a>, <b> 1'' 15 demo_tokens store0)) 0)
       = {''iri'', ''x''}
   \<and> map_of (node_items (objs (snd (Comp_postParse no_fns (Comp_init ''Base'' whole_input) ''BASE <a>, <b> 1'' 15 demo_tokens store0)) 0)) ''iri''
       = Some (URIRef ''b'')
   \<and> keys (objs (snd (Comp_postParse no_fns sgp ''BASE <a>, <b> 1'' 15 demo_tokens store0)) 0)
       = {''service_string'', ''iri'', ''x''}
   \<and> map_of (node_items (objs (snd (Comp_postParse no_fns sgp ''BASE <a>, <b> 1'' 15 demo_tokens store0)) 0)) ''iri''
       = Some (URIRef ''b'')
   \<and> map_of (node_items (objs (snd (Comp_postParse no_fns sgp ''BASE <a>, <b> 1'' 15 demo_tokens store0)) 0))
         ''service_string''
       = Some (Str ''BASE <a>, <b> 1'')"
  using postParse_scalar_names [of demo_tokens "Comp_init ''Base'' whole_input" no_fns "''BASE <a>, <b> 1''" 15 store0]
    postParse_scalar_names [of demo_tokens sgp no_fns "''BASE <a>, <b> 1''" 15 store0 "''BASE <a>, <b> 1''"]
  by (simp add: demo_tokens_def special_def Comp_init_def sgp_def store0_simps searchString_whole
      expandtabs_def tab_def newline_def)

text \<open>
  C6. For a name labelled only by \<open>ParamList\<close>, a call of \<open>postParse\<close> that returns leaves
  under the name the \<open>plist\<close> of the collapsed values in match order
  (\<open>postParse_list_attribute\<close>, \<open>values_of_Param\<close>), and the call returns when no label
  is named \<open>ctx\<close> and no name is labelled as a scalar before it is labelled as a list
  (\<open>postParse_succeeds\<close>). For a \<open>ParamList\<close> named \<open>ctx\<close> the read \<open>res["ctx"]\<close> before
  \<open>append\<close> reads \<open>self.ctx\<close>, which does not end: \<open>postParse\<close> raises \<open>RecursionError\<close>.
\<close>

theorem postParse_list_named_ctx_fails:
  "fst (Comp_postParse no_fns (Comp_init ''Demo'' whole_input) ''a'' 1
          [Param_postParse2 \<lparr>param_name = ''ctx'', param_isList = True\<rparr> (ParseResults [Str ''a''])] store0)
     = Inl RecursionError"
  by (simp add: eval_defs Param_postParse2_def ParamValue_init_def)




section \<open>\<open>CompValue\<close>: what the accessors return\<close>

lemma read_ctx_fails:
  "(read_ctx n = Inl e) = (e = RecursionError \<and> node_ctx n = Unset \<and> ''ctx'' \<in> keys n)"
  by (auto simp: read_ctx_def has_key_keys split: ctx_attr.splits)

lemma CompValue_get_attached:
  "node_ctx (objs s self) = Attached (Some c) \<Longrightarrow>
   CompValue_get fns self a variables errors s =
     value_py fns c (case map_of (node_items (objs s self)) a of None \<Rightarrow> Str a | Some raw \<Rightarrow> raw)
       variables False s"
  by (simp add: CompValue_get_def CompValue_value_def read_ctx_def)

lemma CompValue_get_detached:
  "read_ctx (objs s self) = Inr None \<Longrightarrow>
   CompValue_get fns self a variables errors s =
     (Inr (case map_of (node_items (objs s self)) a of None \<Rightarrow> Str a | Some raw \<Rightarrow> raw), s)"
  by (simp add: CompValue_get_def CompValue_value_def)

lemma CompValue_get_absent:
  "a \<notin> keys (objs s self) \<Longrightarrow>
   node_ctx (objs s self) \<noteq> Unset \<or> ''ctx'' \<notin> keys (objs s self) \<Longrightarrow>
   CompValue_get fns self a variables errors s = (Inr (Str a), s)"
  by (cases "node_ctx (objs s self)")
     (auto simp: CompValue_get_def CompValue_value_def read_ctx_def has_key_keys keys_dom domIff
       split: option.splits)

lemma CompValue_getattr_absent:
  "a \<notin> keys (objs s self) \<Longrightarrow> a \<noteq> ''_OrderedDict__root'' \<Longrightarrow> a \<noteq> ''_OrderedDict__end'' \<Longrightarrow>
   CompValue_getattr fns self a s = (Inr PyNone, s)"
  by (simp add: CompValue_getattr_def CompValue_getitem_def keys_dom domIff)

text \<open>
  C4. With a context attached, \<open>get(name, variables, errors)\<close> resolves the stored value
  with the caller's \<open>variables\<close> flag but always with \<open>errors = False\<close>
  (\<open>CompValue_get_attached\<close>): \<open>_value\<close> does not hand its \<open>errors\<close> argument on to
  \<open>value\<close>. On a node whose attribute \<open>a\<close> holds a variable bound to a stored error,
  \<open>get("a", errors=True)\<close> raises the error, where resolving the stored value with
  \<open>errors=True\<close> returns it.
\<close>

theorem CompValue_get_ignores_errors_flag:
  "fst (CompValue_get no_fns 0 ''a'' False True
          (set_ctx 0 (Some ctx1) (snd (Expr_init ''Demo'' None [(''a'', Variable ''e'')] store0))))
     = Inl (SPARQLError (EvalError ''boom''))
   \<and> fst (value_py no_fns ctx1 (Variable ''e'') False True
          (set_ctx 0 (Some ctx1) (snd (Expr_init ''Demo'' None [(''a'', Variable ''e'')] store0))))
     = Inr (Error (EvalError ''boom''))"
  by (simp add: eval_defs CompValue_get_def set_ctx_def lookup_def ctx1_def ctx0_def)

text \<open>
  C10. For a name that is not a stored key, \<open>get\<close> returns the name itself whenever
  \<open>self.ctx\<close> can be read (\<open>CompValue_get_absent\<close>), and attribute-style access gives
  \<open>None\<close> (\<open>CompValue_getattr_absent\<close>). On a node that stores an attribute named \<open>ctx\<close>
  and has never been evaluated, reading \<open>self.ctx\<close> does not end, and \<open>get\<close> of an
  absent name raises \<open>RecursionError\<close>.
\<close>

theorem CompValue_get_absent_with_ctx_key:
  "fst (CompValue_get no_fns 0 ''absent'' False False
          (snd (CompValue_init ''Demo'' [(''ctx'', Str ''v'')] store0))) = Inl RecursionError"
  by (simp add: eval_defs CompValue_get_def)

section \<open>The tabular result parser: empty fields and literal terms\<close>

lemma blank_tab [simp]: "\<not> blank tab"
  by (simp add: blank_def tab_def newline_def)

lemma sep_simps [simp]: "sep [] = []" "sep (f # fs) = tab # f @ sep fs"
  by (simp_all add: sep_def)


lemma skipped_Nil [simp]: "skipped W [] = 0"
  by (simp add: skipped_def)















































end
